theory Spec2Isabelle
  imports Complex_Main
begin

section \<open>JavaScript numbers\<close>

text \<open>
  A JavaScript number is an IEEE-754 double. A finite double is the real number it
  stands for, and the three special values keep their IEEE arithmetic, because the
  simulation tick starts its minimum search at \<open>Infinity\<close>. There is no signed zero.
  The operations \<open>js_add\<close>, \<open>js_sub\<close>, \<open>js_mul\<close> and \<open>js_div\<close> give the exact
  result on finite numbers; the rounding of a result to the nearest double is the
  separate step \<open>fl\<close>, taken where the behaviour of the program depends on it: in
  the running sum and the quotient of the mean. In the quantity \<open>a\<close> of \<open>haversine\<close>,
  which goes through \<open>Math.sin\<close> and \<open>Math.cos\<close>, the rounding is a parameter.
\<close>

datatype jsnum = Num real | PInf | NInf | NaN

fun js_neg :: "jsnum \<Rightarrow> jsnum" where
  "js_neg (Num a) = Num (- a)"
| "js_neg PInf = NInf"
| "js_neg NInf = PInf"
| "js_neg NaN = NaN"

fun js_add :: "jsnum \<Rightarrow> jsnum \<Rightarrow> jsnum" where
  "js_add NaN _ = NaN"
| "js_add _ NaN = NaN"
| "js_add (Num a) (Num b) = Num (a + b)"
| "js_add PInf NInf = NaN"
| "js_add NInf PInf = NaN"
| "js_add PInf _ = PInf"
| "js_add _ PInf = PInf"
| "js_add NInf _ = NInf"
| "js_add _ NInf = NInf"

definition js_sub :: "jsnum \<Rightarrow> jsnum \<Rightarrow> jsnum" where
  "js_sub a b = js_add a (js_neg b)"

text \<open>An infinity times a finite number: the sign of the product, or \<open>NaN\<close> at zero.\<close>

definition inf_times :: "bool \<Rightarrow> real \<Rightarrow> jsnum" where
  "inf_times positive b =
     (if b = 0 then NaN else if (0 < b) = positive then PInf else NInf)"

fun js_mul :: "jsnum \<Rightarrow> jsnum \<Rightarrow> jsnum" where
  "js_mul NaN _ = NaN"
| "js_mul _ NaN = NaN"
| "js_mul (Num a) (Num b) = Num (a * b)"
| "js_mul PInf (Num b) = inf_times True b"
| "js_mul NInf (Num b) = inf_times False b"
| "js_mul (Num a) PInf = inf_times True a"
| "js_mul (Num a) NInf = inf_times False a"
| "js_mul PInf PInf = PInf"
| "js_mul NInf NInf = PInf"
| "js_mul PInf NInf = NInf"
| "js_mul NInf PInf = NInf"

text \<open>Division; a zero divisor is the positive zero.\<close>

fun js_div :: "jsnum \<Rightarrow> jsnum \<Rightarrow> jsnum" where
  "js_div NaN _ = NaN"
| "js_div _ NaN = NaN"
| "js_div (Num a) (Num b) =
     (if b \<noteq> 0 then Num (a / b) else if a = 0 then NaN else if 0 < a then PInf else NInf)"
| "js_div (Num a) PInf = Num 0"
| "js_div (Num a) NInf = Num 0"
| "js_div PInf (Num b) = (if 0 \<le> b then PInf else NInf)"
| "js_div NInf (Num b) = (if 0 \<le> b then NInf else PInf)"
| "js_div PInf PInf = NaN"
| "js_div PInf NInf = NaN"
| "js_div NInf PInf = NaN"
| "js_div NInf NInf = NaN"

text \<open>The comparison \<open>a < b\<close>: false as soon as one side is \<open>NaN\<close>.\<close>

fun js_lt :: "jsnum \<Rightarrow> jsnum \<Rightarrow> bool" where
  "js_lt NaN _ = False"
| "js_lt _ NaN = False"
| "js_lt (Num a) (Num b) = (a < b)"
| "js_lt _ NInf = False"
| "js_lt PInf _ = False"
| "js_lt NInf _ = True"
| "js_lt _ PInf = True"

text \<open>The comparison \<open>a == b\<close>: \<open>NaN\<close> is equal to nothing, not even to itself.\<close>

fun js_eq :: "jsnum \<Rightarrow> jsnum \<Rightarrow> bool" where
  "js_eq NaN _ = False"
| "js_eq _ NaN = False"
| "js_eq (Num a) (Num b) = (a = b)"
| "js_eq PInf PInf = True"
| "js_eq NInf NInf = True"
| "js_eq _ _ = False"

text \<open>\<open>Math.sqrt\<close> of a finite number: \<open>NaN\<close> below zero.\<close>

definition js_sqrt :: "real \<Rightarrow> jsnum" where
  "js_sqrt v = (if v < 0 then NaN else Num (sqrt v))"

section \<open>Rounding to double precision\<close>

text \<open>
  The integer nearest to \<open>y\<close>; half-way between two integers, the even one.
\<close>

definition round_even :: "real \<Rightarrow> int" where
  "round_even y =
     (let f = \<lfloor>y\<rfloor>; r = y - of_int f
      in if r < 1 / 2 then f else if 1 / 2 < r then f + 1 else if even f then f else f + 1)"

text \<open>
  The double nearest to \<open>x\<close>, ties to even: with \<open>2^e \<le> |x| < 2^(e + 1)\<close>, the multiple of
  \<open>2^(e - 52)\<close> nearest to \<open>x\<close>, which has a significand of 53 bits. The range of the
  exponent is not bounded: there is no overflow to \<open>Infinity\<close> and no gradual underflow.
\<close>

definition round64 :: "real \<Rightarrow> real" where
  "round64 x =
     (if x = 0 then 0
      else (let e = \<lfloor>log 2 \<bar>x\<bar>\<rfloor>; ulp = 2 powr of_int (e - 52)
            in of_int (round_even (x / ulp)) * ulp))"

text \<open>The result of an operation as the double that is stored.\<close>

fun fl :: "jsnum \<Rightarrow> jsnum" where
  "fl (Num r) = Num (round64 r)"
| "fl v = v"

section \<open>Distance helper\<close>

text \<open>
  \<open>Math.atan2(y, x)\<close>, the angle of the point \<open>(x, y)\<close>, in \<open>(-pi, pi]\<close>; at the origin
  it is 0.
\<close>

definition atan2 :: "real \<Rightarrow> real \<Rightarrow> real" where
  "atan2 y x =
     (if 0 < x then arctan (y / x)
      else if x < 0 then (if 0 \<le> y then arctan (y / x) + pi else arctan (y / x) - pi)
      else if 0 < y then pi / 2
      else if y < 0 then - (pi / 2)
      else 0)"

definition toRad :: "real \<Rightarrow> real" where
  "toRad deg = (deg * pi) / 180"

text \<open>The quantity \<open>a\<close> of \<open>haversine\<close>, the haversine of the central angle.\<close>

definition hav_a :: "real \<Rightarrow> real \<Rightarrow> real \<Rightarrow> real \<Rightarrow> real" where
  "hav_a lat1 lon1 lat2 lon2 =
     (let dLat = toRad (lat2 - lat1);
          dLon = toRad (lon2 - lon1)
      in (sin (dLat / 2))\<^sup>2 + cos (toRad lat1) * cos (toRad lat2) * (sin (dLon / 2))\<^sup>2)"

text \<open>\<open>Math.atan2\<close> on the results of \<open>Math.sqrt\<close>: \<open>NaN\<close> if one of them is.\<close>

fun js_atan2 :: "jsnum \<Rightarrow> jsnum \<Rightarrow> jsnum" where
  "js_atan2 (Num y) (Num x) = Num (atan2 y x)"
| "js_atan2 _ _ = NaN"

text \<open>
  The program evaluates the expression for \<open>a\<close> in double precision. The parameter
  \<open>rounding\<close> gives, for the four arguments, the difference between the double it gets
  and the exact value \<open>hav_a\<close>; in exact arithmetic it is 0 everywhere. With a rounding
  error, \<open>a\<close> can leave \<open>[0, 1]\<close>, and then one of the square roots is \<open>NaN\<close>.
\<close>

type_synonym rounding = "real \<Rightarrow> real \<Rightarrow> real \<Rightarrow> real \<Rightarrow> real"

definition haversine :: "rounding \<Rightarrow> real \<Rightarrow> real \<Rightarrow> real \<Rightarrow> real \<Rightarrow> jsnum" where
  "haversine rounding lat1 lon1 lat2 lon2 =
     (let R = 6371;
          a = hav_a lat1 lon1 lat2 lon2 + rounding lat1 lon1 lat2 lon2
      in js_mul (Num (2 * R)) (js_atan2 (js_sqrt a) (js_sqrt (1 - a))))"

section \<open>Data model\<close>

text \<open>
  A geographic position \<open>{ lat, lon }\<close> in degrees, an element set \<open>{ name, l1, l2 }\<close> as the
  fetch handler builds it (a line index past the end of the array reads \<open>undefined\<close>, here
  \<open>None\<close>), and the statistics object \<open>{ mean, median, p95 }\<close>, whose fields hold what
  the d3 functions return: a number, or \<open>undefined\<close> (\<open>None\<close>).
\<close>

record geo =
  lat :: real
  lon :: real

record tle =
  name :: string
  l1 :: "string option"
  l2 :: "string option"

record stats =
  mean :: "jsnum option"
  median :: "jsnum option"
  p95 :: "jsnum option"

text \<open>The inertial position \<open>{ x, y, z }\<close> of a satellite, in kilometres.\<close>

type_synonym position = "real \<times> real \<times> real"

text \<open>An instant is a \<open>Date\<close>: milliseconds since the epoch.\<close>

type_synonym instant = int

text \<open>
  What \<open>propagate\<close> of satellite.js returns: \<open>null\<close>, or an object whose \<open>position\<close> is
  a position or is falsy (\<open>None\<close>).
\<close>

datatype posvel = Null | PosVel "position option"

text \<open>The exception of reading a property of \<open>undefined\<close> or \<open>null\<close>.\<close>

datatype error = TypeError

record app_state =
  tleData :: "tle list"
  sats :: "geo list"
  groundNodes :: "geo list"
  stats :: stats
  running :: bool

section \<open>Fetching the element sets\<close>

text \<open>
  The response text is a string of 8-bit characters. \<open>trim\<close> removes the white space and
  line terminators at both ends.
\<close>

definition is_ws :: "char \<Rightarrow> bool" where
  "is_ws c = (c \<in> set [CHR 0x09, CHR 0x0A, CHR 0x0B, CHR 0x0C, CHR 0x0D, CHR 0x20, CHR 0xA0])"

definition trim :: "string \<Rightarrow> string" where
  "trim s = rev (dropWhile is_ws (rev (dropWhile is_ws s)))"

text \<open>\<open>text.split("\n")\<close>: the empty text gives one empty line.\<close>

fun split_nl :: "string \<Rightarrow> string list" where
  "split_nl [] = [[]]"
| "split_nl (c # cs) =
     (if c = CHR 0x0A then [] # split_nl cs
      else (case split_nl cs of [] \<Rightarrow> [[c]] | l # ls \<Rightarrow> (c # l) # ls))"

text \<open>The loop \<open>for (i = 0; i < lines.length; i += 3)\<close> pushing one element set per step.\<close>

fun tles :: "string list \<Rightarrow> tle list" where
  "tles [] = []"
| "tles [a] = [\<lparr>name = trim a, l1 = None, l2 = None\<rparr>]"
| "tles [a, b] = [\<lparr>name = trim a, l1 = Some b, l2 = None\<rparr>]"
| "tles (a # b # c # rest) = \<lparr>name = trim a, l1 = Some b, l2 = Some c\<rparr> # tles rest"

text \<open>The value the fetch handler passes to \<open>setTleData\<close>.\<close>

definition fetched :: "string \<Rightarrow> tle list" where
  "fetched text =
     (let lines = filter (\<lambda>l. length (trim l) > 0) (split_nl text)
      in take 40 (tles lines))"

section \<open>Random ground nodes\<close>

text \<open>
  \<open>Math.random\<close> is the sequence \<open>random\<close> of its successive results; node \<open>k\<close> of
  \<open>d3.range(20)\<close> draws its latitude first, then its longitude.
\<close>

definition nodes :: "(nat \<Rightarrow> real) \<Rightarrow> geo list" where
  "nodes random =
     map (\<lambda>k. \<lparr>lat = random (2 * k) * 140 - 70, lon = random (2 * k + 1) * 360 - 180\<rparr>) [0..<20]"

section \<open>Projection of the satellites\<close>

definition toDegrees :: "real \<Rightarrow> real" where
  "toDegrees rad = (rad * 180) / pi"

text \<open>
  The remainder operator \<open>a % b\<close> on finite numbers, \<open>b\<close> not zero: the quotient is
  truncated towards zero, so the result has the sign of the dividend.
\<close>

definition js_rem :: "real \<Rightarrow> real \<Rightarrow> real" where
  "js_rem a b = a - b * of_int (if 0 \<le> a / b then \<lfloor>a / b\<rfloor> else \<lceil>a / b\<rceil>)"

definition project :: "real \<Rightarrow> position \<Rightarrow> geo" where
  "project gmst pos =
     (case pos of (x, y, z) \<Rightarrow>
        let r = sqrt (x * x + y * y);
            lon0 = toDegrees (atan2 y x) - toDegrees gmst;
            lat0 = toDegrees (atan2 z r)
        in \<lparr>lat = lat0, lon = js_rem (lon0 + 540) 360 - 180\<rparr>)"

text \<open>\<open>.filter(Boolean)\<close> on the mapped array: \<open>null\<close> goes, every object stays.\<close>

fun filter_Boolean :: "'a option list \<Rightarrow> 'a list" where
  "filter_Boolean [] = []"
| "filter_Boolean (None # rs) = filter_Boolean rs"
| "filter_Boolean (Some r # rs) = r # filter_Boolean rs"

text \<open>
  \<open>twoline2satrec\<close> and \<open>propagate\<close> belong to satellite.js. \<open>twoline2satrec\<close> reads
  substrings of both lines, so a line that is \<open>undefined\<close> raises a \<open>TypeError\<close>. On two
  strings, the composition of the two functions is the parameter \<open>propagate\<close>. Reading
  \<open>posVel.position\<close> raises a \<open>TypeError\<close> if the result is \<open>null\<close>.
\<close>

type_synonym propagator = "string \<Rightarrow> string \<Rightarrow> instant \<Rightarrow> posvel"

definition posVel_position :: "propagator \<Rightarrow> instant \<Rightarrow> tle \<Rightarrow> error + position option" where
  "posVel_position propagate now t =
     (case l1 t of
        None \<Rightarrow> Inl TypeError
      | Some line1 \<Rightarrow>
          (case l2 t of
             None \<Rightarrow> Inl TypeError
           | Some line2 \<Rightarrow>
               (case propagate line1 line2 now of
                  Null \<Rightarrow> Inl TypeError
                | PosVel pos \<Rightarrow> Inr pos)))"

text \<open>The callback of \<open>tleData.map\<close>: \<open>null\<close> for a falsy position, else the projection.\<close>

definition satellite :: "propagator \<Rightarrow> instant \<Rightarrow> real \<Rightarrow> tle \<Rightarrow> error + geo option" where
  "satellite propagate now gmst t =
     (case posVel_position propagate now t of
        Inl e \<Rightarrow> Inl e
      | Inr None \<Rightarrow> Inr None
      | Inr (Some pos) \<Rightarrow> Inr (Some (project gmst pos)))"

text \<open>\<open>Array.prototype.map\<close> with a callback that can throw: the first exception ends it.\<close>

fun map_throw :: "('a \<Rightarrow> error + 'b) \<Rightarrow> 'a list \<Rightarrow> error + 'b list" where
  "map_throw f [] = Inr []"
| "map_throw f (x # xs) =
     (case f x of
        Inl e \<Rightarrow> Inl e
      | Inr y \<Rightarrow> (case map_throw f xs of Inl e \<Rightarrow> Inl e | Inr ys \<Rightarrow> Inr (y # ys)))"

definition satPositions :: "propagator \<Rightarrow> instant \<Rightarrow> real \<Rightarrow> tle list \<Rightarrow> error + geo list" where
  "satPositions propagate now gmst tleData0 =
     (case map_throw (satellite propagate now gmst) tleData0 of
        Inl e \<Rightarrow> Inl e
      | Inr mapped \<Rightarrow> Inr (filter_Boolean mapped))"

section \<open>Latencies\<close>

text \<open>The \<open>forEach\<close> over the satellites, with the running minimum \<open>minD\<close>.\<close>

fun minD_loop :: "rounding \<Rightarrow> geo \<Rightarrow> geo list \<Rightarrow> jsnum \<Rightarrow> jsnum" where
  "minD_loop rounding g [] minD = minD"
| "minD_loop rounding g (s # ss) minD =
     (let d = haversine rounding (lat g) (lon g) (lat s) (lon s)
      in minD_loop rounding g ss (if js_lt d minD then d else minD))"

definition latency :: "rounding \<Rightarrow> geo \<Rightarrow> geo list \<Rightarrow> jsnum" where
  "latency rounding g satPositions0 =
     (let minD = minD_loop rounding g satPositions0 PInf
      in js_mul (js_div minD (Num 300000)) (Num 1000))"

definition latencies :: "rounding \<Rightarrow> geo list \<Rightarrow> geo list \<Rightarrow> jsnum list" where
  "latencies rounding groundNodes0 satPositions0 =
     map (\<lambda>g. latency rounding g satPositions0) groundNodes0"

section \<open>Statistics\<close>

text \<open>
  \<open>Array.prototype.sort\<close> with a comparator: the sort is stable and a comparator result
  \<open>NaN\<close> counts as 0, so an element moves behind another only if the comparator is
  positive.
\<close>

fun sort_insert :: "(jsnum \<Rightarrow> jsnum \<Rightarrow> jsnum) \<Rightarrow> jsnum \<Rightarrow> jsnum list \<Rightarrow> jsnum list" where
  "sort_insert cmp v [] = [v]"
| "sort_insert cmp v (w # ws) =
     (if js_lt (Num 0) (cmp v w) then w # sort_insert cmp v ws else v # w # ws)"

definition js_sort :: "(jsnum \<Rightarrow> jsnum \<Rightarrow> jsnum) \<Rightarrow> jsnum list \<Rightarrow> jsnum list" where
  "js_sort cmp values = foldr (sort_insert cmp) values []"

fun isNaN :: "jsnum \<Rightarrow> bool" where
  "isNaN NaN = True"
| "isNaN _ = False"

text \<open>
  Modelled from the spec: \<open>d3.mean\<close>, \<open>d3.median\<close> and \<open>d3.quantileSorted\<close> are functions
  of the d3 library, which is not under src/. The mean is the arithmetic average of the
  values that are numbers, and \<open>undefined\<close> when there is none: a running sum
  \<open>sum += value\<close> from 0 and the quotient \<open>sum / count\<close>, each result rounded to a double.
\<close>

definition d3_mean :: "jsnum list \<Rightarrow> jsnum option" where
  "d3_mean values =
     (let numbers = filter (\<lambda>v. \<not> isNaN v) values;
          count = length numbers;
          sum = foldl (\<lambda>sum0 value. fl (js_add sum0 value)) (Num 0) numbers
      in if count = 0 then None else Some (fl (js_div sum (Num (real count)))))"

text \<open>
  Modelled from the spec: \<open>d3.quantileSorted\<close>, the value at quantile \<open>p\<close> of a sequence
  sorted ascending, by linear interpolation between the ranks \<open>i0\<close> and \<open>i0 + 1\<close> around
  \<open>(n - 1) * p\<close>; \<open>undefined\<close> on the empty sequence. The interpolation is computed
  exactly, without rounding.
\<close>

definition d3_quantileSorted :: "jsnum list \<Rightarrow> real \<Rightarrow> jsnum option" where
  "d3_quantileSorted values p =
     (let n = length values
      in if n = 0 then None
         else if p \<le> 0 \<or> n < 2 then Some (values ! 0)
         else if 1 \<le> p then Some (values ! (n - 1))
         else (let i = real (n - 1) * p;
                   i0 = nat \<lfloor>i\<rfloor>;
                   value0 = values ! i0;
                   value1 = values ! (i0 + 1)
               in Some (js_add value0 (js_mul (js_sub value1 value0) (Num (i - real i0))))))"

text \<open>
  Modelled from the spec: \<open>d3.median\<close>, the rank-based median: the quantile 0.5 of the
  values that are numbers, taken in ascending order. On an even count of finite values this
  is the average of the two middle elements.
\<close>

definition d3_median :: "jsnum list \<Rightarrow> jsnum option" where
  "d3_median values =
     d3_quantileSorted (js_sort js_sub (filter (\<lambda>v. \<not> isNaN v) values)) (1 / 2)"

text \<open>The statistics of a non-empty array of latencies, as the tick computes them.\<close>

definition aggregate :: "jsnum list \<Rightarrow> stats" where
  "aggregate latencies0 =
     (let sorted0 = js_sort (\<lambda>a b. js_sub a b) latencies0;
          mean0 = d3_mean latencies0;
          median0 = d3_median latencies0;
          p950 = d3_quantileSorted sorted0 (95 / 100)
      in \<lparr>mean = mean0, median = median0, p95 = p950\<rparr>)"

section \<open>The simulation\<close>

text \<open>The state of the component before its effects have run.\<close>

definition initial :: app_state where
  "initial =
     \<lparr>tleData = [], sats = [], groundNodes = [],
      stats = \<lparr>mean = Some (Num 0), median = Some (Num 0), p95 = Some (Num 0)\<rparr>,
      running = False\<rparr>"

text \<open>The effect with no dependencies that sets the ground nodes, once, at mount.\<close>

definition mounted :: "(nat \<Rightarrow> real) \<Rightarrow> app_state" where
  "mounted random = initial\<lparr>groundNodes := nodes random\<rparr>"

text \<open>
  One run of the interval callback. \<open>gstime\<close> belongs to satellite.js and is a parameter.
  An exception leaves the callback before \<open>setSats\<close>: the result is the exception, and
  the state of the component stays as it was.
\<close>

definition tick ::
  "rounding \<Rightarrow> propagator \<Rightarrow> (instant \<Rightarrow> real) \<Rightarrow> instant \<Rightarrow> app_state \<Rightarrow> error + app_state" where
  "tick rounding propagate gstime now st =
     (let gmst = gstime now
      in case satPositions propagate now gmst (tleData st) of
           Inl e \<Rightarrow> Inl e
         | Inr satPositions0 \<Rightarrow>
             (let st1 = st\<lparr>sats := satPositions0\<rparr>;
                  latencies0 = latencies rounding (groundNodes st) satPositions0
              in if length latencies0 > 0 then Inr (st1\<lparr>stats := aggregate latencies0\<rparr>)
                 else Inr st1))"

text \<open>
  What happens to the component after mount: the fetch delivers its text, a button is
  pressed, or the timer fires. The interval exists only while \<open>running\<close> holds and
  \<open>tleData\<close> is not empty. A callback that throws changes nothing, and the timer goes on.
\<close>

datatype event = Fetched string | Start | Stop | Tick instant

fun handle ::
  "rounding \<Rightarrow> propagator \<Rightarrow> (instant \<Rightarrow> real) \<Rightarrow> app_state \<Rightarrow> event \<Rightarrow> app_state" where
  "handle rounding propagate gstime st (Fetched text) = st\<lparr>tleData := fetched text\<rparr>"
| "handle rounding propagate gstime st Start = st\<lparr>running := True\<rparr>"
| "handle rounding propagate gstime st Stop = st\<lparr>running := False\<rparr>"
| "handle rounding propagate gstime st (Tick now) =
     (if \<not> running st \<or> length (tleData st) = 0 then st
      else (case tick rounding propagate gstime now st of Inl e \<Rightarrow> st | Inr st' \<Rightarrow> st'))"

definition run ::
  "rounding \<Rightarrow> propagator \<Rightarrow> (instant \<Rightarrow> real) \<Rightarrow> app_state \<Rightarrow> event list \<Rightarrow> app_state" where
  "run rounding propagate gstime st evs = foldl (handle rounding propagate gstime) st evs"

section \<open>Example inputs\<close>

text \<open>A random source that always draws 0, the least value \<open>Math.random\<close> can return.\<close>

definition zero_random :: "nat \<Rightarrow> real" where
  "zero_random i = 0"

text \<open>
  A propagator that never finds a position, one that loses the satellite whose first
  line is \<open>1 A\<close> only, and one that returns \<open>null\<close>.
\<close>

definition no_position :: propagator where
  "no_position line1 line2 now = PosVel None"

definition demo_propagate :: propagator where
  "demo_propagate line1 line2 now = (if line1 = ''1 A'' then PosVel None else PosVel (Some (1, 0, 0)))"


definition zero_gstime :: "instant \<Rightarrow> real" where
  "zero_gstime now = 0"

definition demo_tles :: "tle list" where
  "demo_tles =
     [\<lparr>name = ''A'', l1 = Some ''1 A'', l2 = Some ''2 A''\<rparr>,
      \<lparr>name = ''B'', l1 = Some ''1 B'', l2 = Some ''2 B''\<rparr>]"

text \<open>A response text of 41 element sets, three lines each.\<close>

definition catalog :: string where
  "catalog = concat (replicate 41 ''S\<newline>1\<newline>2\<newline>'')"

text \<open>Exact arithmetic: no rounding error in \<open>a\<close>.\<close>

definition no_rounding :: rounding where
  "no_rounding lat1 lon1 lat2 lon2 = 0"

text \<open>
  The point (-62.59375, -44.9375) and its antipode (62.59375, 135.0625). The exact value
  of \<open>a\<close> for this pair is 1; in double precision the program gets 1.0000000000000002,
  one unit in the last place above it, in both orders of the arguments.
\<close>

definition south :: geo where
  "south = \<lparr>lat = - (2003 / 32), lon = - (719 / 16)\<rparr>"

definition north :: geo where
  "north = \<lparr>lat = 2003 / 32, lon = 2161 / 16\<rparr>"

definition antipodal_rounding :: rounding where
  "antipodal_rounding lat1 lon1 lat2 lon2 =
     (if (lat1 = lat south \<and> lon1 = lon south \<and> lat2 = lat north \<and> lon2 = lon north)
         \<or> (lat1 = lat north \<and> lon1 = lon north \<and> lat2 = lat south \<and> lon2 = lon south)
      then 1 / 2 ^ 52 else 0)"

text \<open>The double 40.77147310300487, a latency in milliseconds.\<close>

definition sample :: real where
  "sample = 5738074721063717 / 2 ^ 47"

section \<open>Notions for the statements\<close>

text \<open>The value of \<open>haversine\<close> in exact arithmetic, in kilometres.\<close>

definition great_circle :: "real \<Rightarrow> real \<Rightarrow> real \<Rightarrow> real \<Rightarrow> real" where
  "great_circle lat1 lon1 lat2 lon2 =
     (let a = hav_a lat1 lon1 lat2 lon2 in 2 * 6371 * atan2 (sqrt a) (sqrt (1 - a)))"

text \<open>The values of a list that are finite numbers, in order.\<close>

fun finite_values :: "jsnum list \<Rightarrow> real list" where
  "finite_values [] = []"
| "finite_values (Num d # vs) = d # finite_values vs"
| "finite_values (v # vs) = finite_values vs"

text \<open>The bound on the tracked satellites, as a state invariant.\<close>


definition within_40 :: "app_state \<Rightarrow> bool" where
  "within_40 st = (length (tleData st) \<le> 40 \<and> length (sats st) \<le> 40)"

section \<open>Properties of the rounding\<close>

lemma round_even_error: "\<bar>of_int (round_even y) - y\<bar> \<le> 1 / 2"
proof -
  have "of_int \<lfloor>y\<rfloor> \<le> y" "y < of_int \<lfloor>y\<rfloor> + 1" by linarith+
  then show ?thesis
    unfolding round_even_def Let_def by (auto simp: abs_le_iff)
qed

text \<open>With the exponent at hand, \<open>round64\<close> is a computation on rational numbers.\<close>

lemma round64_at:
  assumes "2 powr of_int e \<le> \<bar>x\<bar>" and "\<bar>x\<bar> < 2 powr of_int (e + 1)"
  shows "round64 x = of_int (round_even (x / 2 powr of_int (e - 52))) * 2 powr of_int (e - 52)"
proof -
  have "0 < (2::real) powr of_int e" by simp
  with assms(1) have x: "0 < \<bar>x\<bar>" by linarith
  then have "\<lfloor>log 2 \<bar>x\<bar>\<rfloor> = e"
    using assms by (simp add: floor_log_eq_powr_iff)
  with x show ?thesis by (simp add: round64_def Let_def)
qed

text \<open>The relative error of a rounding is at most \<open>2^-53\<close>.\<close>

lemma round64_error: "\<bar>round64 x - x\<bar> \<le> \<bar>x\<bar> / 2 ^ 53"
proof (cases "x = 0")
  case True
  then show ?thesis by (simp add: round64_def)
next
  case False
  define e where "e = \<lfloor>log 2 \<bar>x\<bar>\<rfloor>"
  define ulp where "ulp = (2::real) powr of_int (e - 52)"
  have ulp: "0 < ulp" by (simp add: ulp_def)
  from False have "0 < \<bar>x\<bar>" by simp
  then have "2 powr of_int e \<le> \<bar>x\<bar>"
    using floor_log_eq_powr_iff [of "\<bar>x\<bar>" 2 e] by (simp add: e_def)
  moreover have "(2::real) powr of_int e = ulp * 2 ^ 52"
  proof -
    have "(2::real) powr of_int e = 2 powr (of_int (e - 52) + 52)" by simp
    also have "\<dots> = 2 powr of_int (e - 52) * 2 powr 52" by (rule powr_add)
    finally show ?thesis by (simp add: ulp_def)
  qed
  ultimately have big: "ulp * 2 ^ 52 \<le> \<bar>x\<bar>" by simp
  have r: "round64 x = of_int (round_even (x / ulp)) * ulp"
    using False by (simp add: round64_def Let_def e_def ulp_def)
  have "round64 x - x = (of_int (round_even (x / ulp)) - x / ulp) * ulp"
    using ulp by (simp add: r field_simps)
  then have "\<bar>round64 x - x\<bar> = \<bar>of_int (round_even (x / ulp)) - x / ulp\<bar> * ulp"
    using ulp by (simp add: abs_mult)
  also have "\<dots> \<le> 1 / 2 * ulp"
    using round_even_error [of "x / ulp"] ulp by (intro mult_right_mono) simp_all
  also have "\<dots> = ulp * 2 ^ 52 / 2 ^ 53" by simp
  also have "\<dots> \<le> \<bar>x\<bar> / 2 ^ 53"
    using big by (intro divide_right_mono) simp_all
  finally show ?thesis .
qed

lemma round64_bounds:
  assumes "0 \<le> x"
  shows "x * (1 - 1 / 2 ^ 53) \<le> round64 x \<and> round64 x \<le> x * (1 + 1 / 2 ^ 53)"
proof -
  from round64_error [of x] assms have "\<bar>round64 x - x\<bar> \<le> x / 2 ^ 53" by simp
  then have "- (x / 2 ^ 53) \<le> round64 x - x" "round64 x - x \<le> x / 2 ^ 53" by linarith+
  then show ?thesis by (simp add: algebra_simps)
qed

text \<open>An integer below \<open>2^53\<close> is a double.\<close>

lemma round64_of_int:
  assumes "\<bar>m\<bar> < 2 ^ 53"
  shows "round64 (of_int m) = of_int m"
proof (cases "m = 0")
  case True
  then show ?thesis by (simp add: round64_def)
next
  case False
  define x where "x = (of_int m :: real)"
  define e where "e = \<lfloor>log 2 \<bar>x\<bar>\<rfloor>"
  from False have "1 \<le> \<bar>m\<bar>" by linarith
  then have "(1::real) \<le> of_int \<bar>m\<bar>" by simp
  then have x1: "1 \<le> \<bar>x\<bar>" by (simp add: x_def)
  from assms have "(of_int \<bar>m\<bar> :: real) < 2 ^ 53" by simp
  then have x2: "\<bar>x\<bar> < 2 ^ 53" by (simp add: x_def)
  have e0: "0 \<le> e" unfolding e_def using x1 by simp
  have "log 2 \<bar>x\<bar> < 53"
    using x1 x2 by (simp add: log_less_iff)
  then have e52: "e \<le> 52" unfolding e_def by linarith
  define n where "n = nat (52 - e)"
  have ulp: "(2::real) powr of_int (e - 52) = 1 / 2 ^ n"
  proof -
    have "of_int (e - 52) = - real n" using e52 by (simp add: n_def)
    then have "(2::real) powr of_int (e - 52) = 2 powr (- real n)" by simp
    also have "\<dots> = 1 / 2 ^ n" by (simp add: powr_minus powr_realpow divide_inverse)
    finally show ?thesis .
  qed
  have q: "x / (1 / 2 ^ n) = of_int (m * 2 ^ n)" by (simp add: x_def)
  have "round_even (of_int k) = k" for k
    by (simp add: round_even_def)
  then have k: "round_even (x / (1 / 2 ^ n)) = m * 2 ^ n" unfolding q .
  from False have "x \<noteq> 0" by (simp add: x_def)
  then have "round64 x = of_int (round_even (x / (1 / 2 ^ n))) * (1 / 2 ^ n)"
    unfolding round64_def Let_def e_def [symmetric] ulp by (simp only: if_False)
  then show ?thesis unfolding k by (simp add: x_def)
qed

lemma round64_numeral [simp]:
  "numeral k < (2::int) ^ 53 \<Longrightarrow> round64 (numeral k) = numeral k"
  using round64_of_int [of "numeral k"] by simp

lemma round64_zero [simp]: "round64 0 = 0"
  by (simp add: round64_def)

lemma round64_one [simp]: "round64 1 = 1"
  using round64_of_int [of 1] by simp

section \<open>Properties of the distance helper\<close>

lemma hav_a_sym: "hav_a lat1 lon1 lat2 lon2 = hav_a lat2 lon2 lat1 lon1"
proof -
  have flip: "(sin (toRad (u - v) / 2))\<^sup>2 = (sin (toRad (v - u) / 2))\<^sup>2" for u v :: real
  proof -
    have "toRad (u - v) / 2 = - (toRad (v - u) / 2)"
      by (simp add: toRad_def field_simps)
    then show ?thesis by (simp add: power2_eq_square)
  qed
  show ?thesis
    unfolding hav_a_def Let_def
    by (simp add: flip [of lat2 lat1] flip [of lon2 lon1] mult.commute)
qed

lemma hav_a_same: "hav_a lat1 lon1 lat1 lon1 = 0"
  by (simp add: hav_a_def toRad_def)

text \<open>
  In exact arithmetic the quantity \<open>a\<close> lies in \<open>[0, 1]\<close>: it is \<open>(1 - D) / 2\<close> for the
  scalar product \<open>D\<close> of two unit vectors.
\<close>

lemma sin_half_squared: "(sin (v / 2))\<^sup>2 = (1 - cos v) / 2" for v :: real
  using cos_double_sin [of "v / 2"] by simp

lemma dot_bound:
  fixes a b c d :: real
  assumes "a\<^sup>2 + c\<^sup>2 = 1" and "b\<^sup>2 + d\<^sup>2 \<le> 1"
  shows "\<bar>a * b + c * d\<bar> \<le> 1"
proof -
  have "(a * b + c * d)\<^sup>2 + (a * d - c * b)\<^sup>2 = (a\<^sup>2 + c\<^sup>2) * (b\<^sup>2 + d\<^sup>2)"
    by (simp add: power2_eq_square algebra_simps)
  with assms(1) have "(a * b + c * d)\<^sup>2 + (a * d - c * b)\<^sup>2 = b\<^sup>2 + d\<^sup>2" by simp
  moreover have "0 \<le> (a * d - c * b)\<^sup>2" by simp
  ultimately have "(a * b + c * d)\<^sup>2 \<le> 1" using assms(2) by linarith
  then show ?thesis by (simp add: abs_square_le_1)
qed

lemma hav_a_range: "0 \<le> hav_a lat1 lon1 lat2 lon2 \<and> hav_a lat1 lon1 lat2 lon2 \<le> 1"
proof -
  define p1 where "p1 = toRad lat1"
  define p2 where "p2 = toRad lat2"
  define dl where "dl = toRad (lon2 - lon1)"
  define D where "D = sin p1 * sin p2 + cos p1 * (cos p2 * cos dl)"
  have dlat: "toRad (lat2 - lat1) = p2 - p1"
    by (simp add: toRad_def p1_def p2_def algebra_simps diff_divide_distrib)
  have "hav_a lat1 lon1 lat2 lon2 = (1 - cos (p2 - p1)) / 2 + cos p1 * cos p2 * ((1 - cos dl) / 2)"
    unfolding hav_a_def Let_def dlat sin_half_squared p1_def p2_def dl_def by (rule refl)
  also have "\<dots> = (1 - D) / 2"
    by (simp add: D_def cos_diff field_simps)
  finally have a: "hav_a lat1 lon1 lat2 lon2 = (1 - D) / 2" .
  have "(cos p2 * cos dl)\<^sup>2 \<le> (cos p2)\<^sup>2"
  proof -
    have "(cos dl)\<^sup>2 \<le> 1" by (simp add: abs_square_le_1)
    then have "(cos p2)\<^sup>2 * (cos dl)\<^sup>2 \<le> (cos p2)\<^sup>2 * 1"
      by (intro mult_left_mono) simp_all
    then show ?thesis by (simp add: power_mult_distrib)
  qed
  moreover have "(sin p2)\<^sup>2 + (cos p2)\<^sup>2 = 1" by simp
  ultimately have le: "(sin p2)\<^sup>2 + (cos p2 * cos dl)\<^sup>2 \<le> 1" by linarith
  have "\<bar>D\<bar> \<le> 1"
    unfolding D_def by (rule dot_bound [OF _ le]) simp
  with a show ?thesis by (simp add: abs_le_iff)
qed

text \<open>So without rounding the distance is always a number, the great-circle distance.\<close>

lemma haversine_no_rounding:
  "haversine no_rounding lat1 lon1 lat2 lon2 = Num (great_circle lat1 lon1 lat2 lon2)"
  using hav_a_range [of lat1 lon1 lat2 lon2]
  by (simp add: haversine_def great_circle_def no_rounding_def js_sqrt_def Let_def)

lemma great_circle_symmetric_and_zero:
  "great_circle lat1 lon1 lat2 lon2 = great_circle lat2 lon2 lat1 lon1
   \<and> great_circle lat1 lon1 lat1 lon1 = 0"
proof
  show "great_circle lat1 lon1 lat2 lon2 = great_circle lat2 lon2 lat1 lon1"
    unfolding great_circle_def by (simp only: hav_a_sym [of lat1 lon1 lat2 lon2])
next
  show "great_circle lat1 lon1 lat1 lon1 = 0"
    unfolding great_circle_def by (simp add: hav_a_same atan2_def)
qed

text \<open>A point and its antipode: the exact value of \<open>a\<close> is 1.\<close>

lemma hav_a_antipodal:
  "hav_a (lat south) (lon south) (lat north) (lon north) = 1
   \<and> hav_a (lat north) (lon north) (lat south) (lon south) = 1"
proof -
  define t where "t = toRad (2003 / 32)"
  have half: "toRad (2003 / 16) / 2 = t" "toRad (- (2003 / 32)) = - t"
    "toRad 180 / 2 = pi / 2"
    by (simp_all add: toRad_def t_def)
  have "hav_a (lat south) (lon south) (lat north) (lon north) = (sin t)\<^sup>2 + (cos t)\<^sup>2"
    unfolding hav_a_def Let_def south_def north_def
    by (simp add: half t_def [symmetric] power2_eq_square)
  then have "hav_a (lat south) (lon south) (lat north) (lon north) = 1" by simp
  with hav_a_sym [of "lat north" "lon north" "lat south" "lon south"] show ?thesis by simp
qed

text \<open>
  Claim C7. For the point (-62.59375, -44.9375) and its antipode the program computes
  \<open>a = 1.0000000000000002\<close>, so \<open>Math.sqrt(1 - a)\<close> is \<open>NaN\<close> and so is the distance, in
  both orders of the arguments; and \<open>NaN == NaN\<close> is false.
\<close>

theorem antipodal_distance_is_not_symmetric:
  "haversine antipodal_rounding (lat south) (lon south) (lat north) (lon north) = NaN
   \<and> haversine antipodal_rounding (lat north) (lon north) (lat south) (lon south) = NaN
   \<and> \<not> js_eq (haversine antipodal_rounding (lat south) (lon south) (lat north) (lon north))
             (haversine antipodal_rounding (lat north) (lon north) (lat south) (lon south))"
proof -
  have r: "antipodal_rounding (lat south) (lon south) (lat north) (lon north) = 1 / 2 ^ 52"
    "antipodal_rounding (lat north) (lon north) (lat south) (lon south) = 1 / 2 ^ 52"
    by (simp_all add: antipodal_rounding_def)
  have "haversine antipodal_rounding (lat south) (lon south) (lat north) (lon north) = NaN"
    unfolding haversine_def Let_def r by (simp add: hav_a_antipodal js_sqrt_def)
  moreover
  have "haversine antipodal_rounding (lat north) (lon north) (lat south) (lon south) = NaN"
    unfolding haversine_def Let_def r by (simp add: hav_a_antipodal js_sqrt_def)
  ultimately show ?thesis by simp
qed

section \<open>The satellites that reach the map\<close>

lemma map_throw_all:
  assumes "\<forall>x \<in> set xs. \<exists>y. f x = Inr y"
  shows "map_throw f xs = Inr (map (\<lambda>x. case f x of Inr y \<Rightarrow> y) xs)"
  using assms by (induction xs) auto

lemma map_throw_some:
  assumes "x \<in> set xs" and "f x = Inl e"
  shows "\<exists>e'. map_throw f xs = Inl e'"
  using assms by (induction xs) (auto split: sum.splits)

lemma map_throw_length: "map_throw f xs = Inr ys \<Longrightarrow> length ys = length xs"
  by (induction xs arbitrary: ys) (auto split: sum.splits)

lemma filter_Boolean_concat:
  "filter_Boolean (map h ts) = concat (map (\<lambda>t. case h t of Some g \<Rightarrow> [g] | None \<Rightarrow> []) ts)"
  by (induction ts) (auto split: option.splits)

lemma satPositions_complete:
  assumes "\<forall>t \<in> set ts. \<exists>p. posVel_position propagate now t = Inr p"
  shows "satPositions propagate now gmst ts =
           Inr (concat (map (\<lambda>t. case posVel_position propagate now t of
                                   Inr (Some pos) \<Rightarrow> [project gmst pos] | _ \<Rightarrow> []) ts))"
proof -
  have ok: "\<forall>t \<in> set ts. \<exists>y. satellite propagate now gmst t = Inr y"
    using assms by (auto simp: satellite_def split: option.splits)
  have "filter_Boolean (map (\<lambda>t. case satellite propagate now gmst t of Inr y \<Rightarrow> y) ts)
          = concat (map (\<lambda>t. case posVel_position propagate now t of
                                   Inr (Some pos) \<Rightarrow> [project gmst pos] | _ \<Rightarrow> []) ts)"
    unfolding filter_Boolean_concat
    using assms
    by (intro arg_cong [where f = concat] map_cong refl)
      (auto simp: satellite_def split: option.splits sum.splits)
  then show ?thesis
    by (simp add: satPositions_def map_throw_all [OF ok])
qed

text \<open>
  The tick throws exactly when reading \<open>posVel.position\<close> throws for one of the element
  sets: a line is missing or the result is \<open>null\<close>. A falsy position never makes it throw.
\<close>

lemma tick_throws_iff:
  "(\<exists>e. tick rounding propagate gstime now st = Inl e)
     \<longleftrightarrow> (\<exists>t \<in> set (tleData st). \<exists>e. posVel_position propagate now t = Inl e)"
proof
  assume "\<exists>e. tick rounding propagate gstime now st = Inl e"
  then have "\<not> (\<forall>t \<in> set (tleData st). \<exists>p. posVel_position propagate now t = Inr p)"
    using satPositions_complete [of "tleData st" propagate now "gstime now"]
    by (auto simp: tick_def Let_def split: sum.splits if_splits)
  then obtain t where "t \<in> set (tleData st)" "\<forall>p. posVel_position propagate now t \<noteq> Inr p"
    by blast
  then show "\<exists>t \<in> set (tleData st). \<exists>e. posVel_position propagate now t = Inl e"
    by (cases "posVel_position propagate now t") auto
next
  assume "\<exists>t \<in> set (tleData st). \<exists>e. posVel_position propagate now t = Inl e"
  then obtain t e where t: "t \<in> set (tleData st)" "posVel_position propagate now t = Inl e"
    by blast
  then have "satellite propagate now (gstime now) t = Inl e" by (simp add: satellite_def)
  with t(1) map_throw_some [of t "tleData st" "satellite propagate now (gstime now)" e]
  obtain e' where
    "map_throw (satellite propagate now (gstime now)) (tleData st) = Inl e'" by blast
  then show "\<exists>e. tick rounding propagate gstime now st = Inl e"
    by (simp add: tick_def satPositions_def)
qed




text \<open>
  Within one run of the callback that completes, the statistics come from the
  satellites the same run publishes, whenever there is a ground node.
\<close>

lemma tick_statistics_of_same_tick:
  "groundNodes st \<noteq> [] \<Longrightarrow> tick rounding propagate gstime now st = Inr st' \<Longrightarrow>
     stats st' = aggregate (latencies rounding (groundNodes st) (sats st'))"
  by (auto simp: tick_def Let_def latencies_def split: sum.splits)

section \<open>At most 40 satellites\<close>

lemma length_filter_Boolean: "length (filter_Boolean rs) \<le> length rs"
  by (induction rs rule: filter_Boolean.induct) auto

lemma length_satPositions:
  assumes "satPositions propagate now gmst ts = Inr ps"
  shows "length ps \<le> length ts"
proof -
  from assms obtain mapped where
    m: "map_throw (satellite propagate now gmst) ts = Inr mapped" and ps: "ps = filter_Boolean mapped"
    by (auto simp: satPositions_def split: sum.splits)
  from map_throw_length [OF m] length_filter_Boolean [of mapped] show ?thesis
    by (simp add: ps)
qed

lemma length_fetched: "length (fetched text) \<le> 40"
  by (simp add: fetched_def Let_def)

lemma tick_within_40:
  assumes "within_40 st" and "tick rounding propagate gstime now st = Inr st'"
  shows "within_40 st'"
proof -
  from assms(2) obtain ps where
    ps: "satPositions propagate now (gstime now) (tleData st) = Inr ps"
    and st': "tleData st' = tleData st" "sats st' = ps"
    by (auto simp: tick_def Let_def split: sum.splits if_splits)
  from length_satPositions [OF ps] assms(1) st' show ?thesis
    by (simp add: within_40_def)
qed

lemma handle_within_40:
  "within_40 st \<Longrightarrow> within_40 (handle rounding propagate gstime st ev)"
proof (cases ev)
  case (Tick now)
  assume inv: "within_40 st"
  show ?thesis
  proof (cases "tick rounding propagate gstime now st")
    case (Inl e)
    with inv Tick show ?thesis by simp
  next
    case (Inr st')
    from tick_within_40 [OF inv Inr] inv Tick Inr show ?thesis by simp
  qed
qed (simp_all add: within_40_def length_fetched)

lemma run_within_40:
  "within_40 st \<Longrightarrow> within_40 (run rounding propagate gstime st evs)"
  unfolding run_def
  by (induction evs arbitrary: st) (simp_all add: handle_within_40)

lemma mounted_within_40: "within_40 (mounted random)"
  by (simp add: within_40_def mounted_def initial_def)

text \<open>
  Claim C9. Whatever happens after mount, the tracked element sets number at most 40,
  because the fetch handler keeps the first 40; so the satellite positions a tick
  computes, and the published list, have at most 40 entries.
\<close>

theorem at_most_40_satellites:
  "length (tleData (run rounding propagate gstime (mounted random) evs)) \<le> 40
   \<and> (\<forall>ps. satPositions propagate now (gstime now)
              (tleData (run rounding propagate gstime (mounted random) evs)) = Inr ps
            \<longrightarrow> length ps \<le> 40)
   \<and> length (sats (run rounding propagate gstime (mounted random) evs)) \<le> 40"
proof -
  let ?st = "run rounding propagate gstime (mounted random) evs"
  have inv: "within_40 ?st"
    by (rule run_within_40 [OF mounted_within_40])
  have "length ps \<le> 40"
    if "satPositions propagate now (gstime now) (tleData ?st) = Inr ps" for ps
    using length_satPositions [OF that] inv by (simp add: within_40_def)
  with inv show ?thesis by (simp add: within_40_def)
qed

lemma length_fetched_catalog: "length (fetched catalog) = 40"
  by code_simp

text \<open>A response of 41 element sets leaves 40 of them tracked.\<close>

theorem at_most_40_satellites_witness:
  "length (tleData (run no_rounding demo_propagate zero_gstime (mounted zero_random)
       [Fetched catalog, Start, Tick 0])) = 40
   \<and> length (sats (run no_rounding demo_propagate zero_gstime (mounted zero_random)
       [Fetched catalog, Start, Tick 0])) \<le> 40"
proof -
  let ?st = "run no_rounding demo_propagate zero_gstime (mounted zero_random)
    [Fetched catalog, Start, Tick 0]"
  have "tleData ?st = fetched catalog"
    by (simp add: run_def tick_def Let_def split: sum.splits)
  then have "length (tleData ?st) = 40"
    by (simp only: length_fetched_catalog)
  with at_most_40_satellites
    [of no_rounding demo_propagate zero_gstime zero_random "[Fetched catalog, Start, Tick 0]" 0]
  show ?thesis by blast
qed

section \<open>The ground nodes\<close>

lemma handle_groundNodes:
  "groundNodes (handle rounding propagate gstime st ev) = groundNodes st"
  by (cases ev) (auto simp: tick_def Let_def split: sum.splits)

lemma run_groundNodes:
  "groundNodes (run rounding propagate gstime st evs) = groundNodes st"
  unfolding run_def
  by (induction evs arbitrary: st) (simp_all add: handle_groundNodes)

lemma nodes_range:
  assumes "\<forall>i. 0 \<le> random i \<and> random i < 1" and "g \<in> set (nodes random)"
  shows "- 70 \<le> lat g \<and> lat g < 70 \<and> - 180 \<le> lon g \<and> lon g < 180"
proof -
  from assms(2) obtain k where
    g: "g = \<lparr>lat = random (2 * k) * 140 - 70, lon = random (2 * k + 1) * 360 - 180\<rparr>"
    by (auto simp: nodes_def)
  from assms(1) have "0 \<le> random (2 * k)" "random (2 * k) < 1"
    "0 \<le> random (2 * k + 1)" "random (2 * k + 1) < 1"
    by simp_all
  then show ?thesis by (simp add: g)
qed

text \<open>
  Claim C10, as stated, fails: when \<open>Math.random\<close> returns 0, the latitude is exactly
  -70, which is not inside the open interval (-70, 70).
\<close>

theorem ground_node_latitude_counterexample:
  "lat (nodes zero_random ! 0) = - 70 \<and> \<not> (- 70 < lat (nodes zero_random ! 0))"
  by (simp add: nodes_def zero_random_def upt_rec)

text \<open>
  Claim C10, amended. With \<open>Math.random\<close> drawing from \<open>[0, 1)\<close>, the ground nodes are
  set at mount to exactly 20 nodes and no later event changes them; every node has its
  latitude in \<open>[-70, 70)\<close> and its longitude in \<open>[-180, 180)\<close>.
\<close>

theorem ground_nodes_fixed_and_in_range:
  assumes "\<forall>i. 0 \<le> random i \<and> random i < 1"
  shows "groundNodes (run rounding propagate gstime (mounted random) evs) = nodes random
         \<and> length (nodes random) = 20
         \<and> (\<forall>g \<in> set (nodes random).
               - 70 \<le> lat g \<and> lat g < 70 \<and> - 180 \<le> lon g \<and> lon g < 180)"
  using nodes_range [OF assms]
  by (simp add: run_groundNodes mounted_def nodes_def)

theorem ground_nodes_fixed_and_in_range_witness:
  "groundNodes (run no_rounding demo_propagate zero_gstime (mounted zero_random)
       [Fetched catalog, Start, Tick 0, Stop]) = nodes zero_random
   \<and> length (nodes zero_random) = 20
   \<and> - 70 \<le> lat (nodes zero_random ! 3) \<and> lat (nodes zero_random ! 3) < 70
   \<and> - 180 \<le> lon (nodes zero_random ! 3) \<and> lon (nodes zero_random ! 3) < 180"
proof -
  have r: "\<forall>i. 0 \<le> zero_random i \<and> zero_random i < 1"
    by (simp add: zero_random_def)
  have m: "nodes zero_random ! 3 \<in> set (nodes zero_random)"
    by (rule nth_mem) (simp add: nodes_def)
  from ground_nodes_fixed_and_in_range
    [OF r, of no_rounding demo_propagate zero_gstime "[Fetched catalog, Start, Tick 0, Stop]"] m
  show ?thesis by blast
qed

section \<open>Longitude of a projected satellite\<close>

lemma atan2_range: "- pi < atan2 y x \<and> atan2 y x \<le> pi"
proof -
  have b: "- (pi / 2) < arctan (y / x)" "arctan (y / x) < pi / 2"
    by (rule arctan_lbound, rule arctan_ubound)
  have pos: "0 < pi" by simp
  consider "0 < x" | "x < 0" "0 \<le> y" | "x < 0" "y < 0" | "x = 0" by linarith
  then show ?thesis
  proof cases
    case 1
    then show ?thesis using b pos by (simp add: atan2_def)
  next
    case 2
    then have "y / x \<le> 0" by (simp add: divide_nonneg_neg)
    then have "arctan (y / x) \<le> 0" using arctan_le_zero_iff by blast
    moreover from 2 have "atan2 y x = arctan (y / x) + pi" by (simp add: atan2_def)
    ultimately show ?thesis using b pos by linarith
  next
    case 3
    then have "0 < y / x" by (simp add: divide_neg_neg)
    then have "0 < arctan (y / x)" using zero_less_arctan_iff by blast
    moreover from 3 have "atan2 y x = arctan (y / x) - pi" by (simp add: atan2_def)
    ultimately show ?thesis using b pos by linarith
  next
    case 4
    then have "atan2 y x = pi / 2 \<or> atan2 y x = - (pi / 2) \<or> atan2 y x = 0"
      by (simp add: atan2_def)
    then show ?thesis using pos by linarith
  qed
qed

lemma toDegrees_atan2_range: "- 180 < toDegrees (atan2 y x) \<and> toDegrees (atan2 y x) \<le> 180"
proof -
  have pos: "0 < pi" by simp
  from atan2_range [of y x] have "- pi < atan2 y x" "atan2 y x \<le> pi" by simp_all
  then have "- 180 * pi < atan2 y x * 180" "atan2 y x * 180 \<le> 180 * pi" by simp_all
  with pos show ?thesis
    by (simp add: toDegrees_def pos_less_divide_eq pos_divide_le_eq)
qed

text \<open>The remainder of a non-negative dividend lies in \<open>[0, b)\<close>.\<close>

lemma js_rem_nonneg:
  assumes "0 \<le> a" and "0 < b"
  shows "0 \<le> js_rem a b \<and> js_rem a b < b"
proof -
  let ?q = "of_int \<lfloor>a / b\<rfloor> :: real"
  from assms have q: "0 \<le> a / b" by simp
  have ab: "a / b * b = a" "b * (a / b) = a" using assms(2) by simp_all
  have "?q \<le> a / b" by simp
  with assms(2) have "?q * b \<le> a / b * b" by (intro mult_right_mono) simp_all
  then have lo: "b * ?q \<le> a" unfolding ab by (simp only: mult.commute [of _ b])
  have "a / b < ?q + 1" by linarith
  with assms(2) have "a / b * b < (?q + 1) * b" by (intro mult_strict_right_mono) simp_all
  then have hi: "a < b * ?q + b" unfolding ab by (simp add: algebra_simps)
  from lo hi have "0 \<le> a - b * ?q" "a - b * ?q < b" by simp_all
  with q show ?thesis by (simp add: js_rem_def)
qed

text \<open>
  Claim C4, as stated, fails. A satellite on the negative x axis at GMST 0 has the raw
  longitude 180, and \<open>((180 + 540) % 360) - 180\<close> is -180, outside \<open>(-180, 180]\<close>. And
  for a GMST angle beyond one turn the dividend is negative, the remainder keeps its
  sign, and the result falls below -180: at GMST \<open>4 pi\<close> a satellite on the positive
  x axis gets the longitude -360.
\<close>

theorem longitude_counterexample:
  "lon (project 0 (- 1, 0, 0)) = - 180 \<and> lon (project (4 * pi) (1, 0, 0)) = - 360"
  by (simp add: project_def atan2_def toDegrees_def js_rem_def ceiling_def)

text \<open>
  Claim C4, amended. For every finite inertial position and every GMST angle of at most
  \<open>2 pi\<close> (\<open>gstime\<close> returns an angle in \<open>[0, 2 pi)\<close>), the longitude of the projected
  position lies in the half-open interval \<open>[-180, 180)\<close>.
\<close>

theorem longitude_range:
  assumes "gmst \<le> 2 * pi"
  shows "- 180 \<le> lon (project gmst (x, y, z)) \<and> lon (project gmst (x, y, z)) < 180"
proof -
  let ?v = "toDegrees (atan2 y x) - toDegrees gmst + 540"
  have pos: "0 < pi" by simp
  from assms have "gmst * 180 \<le> 360 * pi" by simp
  with pos have "toDegrees gmst \<le> 360"
    by (simp add: toDegrees_def pos_divide_le_eq)
  with toDegrees_atan2_range [of y x] have "0 \<le> ?v" by simp
  from js_rem_nonneg [OF this, of 360] have "0 \<le> js_rem ?v 360" "js_rem ?v 360 < 360"
    by simp_all
  then show ?thesis by (simp add: project_def Let_def)
qed

theorem longitude_range_witness:
  "lon (project 0 (1, 0, 0)) = 0
   \<and> - 180 \<le> lon (project 0 (1, 0, 0)) \<and> lon (project 0 (1, 0, 0)) < 180"
  using longitude_range [of 0 1 0 0]
  by (simp add: project_def atan2_def toDegrees_def js_rem_def)

section \<open>Latency of a ground node\<close>

lemma Min_insert_min:
  "finite A \<Longrightarrow> Min (insert (min a b) A) = Min (insert a (insert b A))" for a b :: real
  by (cases "A = {}") (simp_all add: min.assoc)

lemma haversine_cases:
  "haversine rounding lat1 lon1 lat2 lon2 = NaN
   \<or> (\<exists>d. haversine rounding lat1 lon1 lat2 lon2 = Num d)"
  by (simp add: haversine_def Let_def js_sqrt_def)

text \<open>A distance \<open>NaN\<close> fails the comparison \<open>d < minD\<close> and is passed over.\<close>

lemma minD_loop_Num:
  "minD_loop rounding g ss (Num m)
     = Num (Min (insert m (set (finite_values
         (map (\<lambda>s. haversine rounding (lat g) (lon g) (lat s) (lon s)) ss)))))"
proof (induction ss arbitrary: m)
  case Nil
  show ?case by simp
next
  case (Cons s ss)
  let ?H = "set (finite_values
    (map (\<lambda>s. haversine rounding (lat g) (lon g) (lat s) (lon s)) ss))"
  from haversine_cases [of rounding "lat g" "lon g" "lat s" "lon s"] show ?case
  proof
    assume nan: "haversine rounding (lat g) (lon g) (lat s) (lon s) = NaN"
    then show ?thesis by (simp add: Cons.IH)
  next
    assume "\<exists>d. haversine rounding (lat g) (lon g) (lat s) (lon s) = Num d"
    then obtain d where d: "haversine rounding (lat g) (lon g) (lat s) (lon s) = Num d" ..
    have "minD_loop rounding g (s # ss) (Num m) = minD_loop rounding g ss (Num (min d m))"
      by (simp add: d min_def)
    also have "\<dots> = Num (Min (insert (min d m) ?H))" by (rule Cons.IH)
    also have "Min (insert (min d m) ?H) = Min (insert d (insert m ?H))"
      by (rule Min_insert_min) simp
    finally show ?thesis by (simp add: d insert_commute)
  qed
qed

text \<open>
  For every rounding: the latency comes from the least of the distances that are
  numbers, and is \<open>Infinity\<close> when none is.
\<close>

lemma minD_loop_PInf:
  "minD_loop rounding g ss PInf =
     (let ds = finite_values (map (\<lambda>s. haversine rounding (lat g) (lon g) (lat s) (lon s)) ss)
      in if ds = [] then PInf else Num (Min (set ds)))"
proof (induction ss)
  case Nil
  show ?case by simp
next
  case (Cons s ss)
  from haversine_cases [of rounding "lat g" "lon g" "lat s" "lon s"] show ?case
  proof
    assume "haversine rounding (lat g) (lon g) (lat s) (lon s) = NaN"
    then show ?thesis using Cons.IH by (simp add: Let_def)
  next
    assume "\<exists>d. haversine rounding (lat g) (lon g) (lat s) (lon s) = Num d"
    then obtain d where d: "haversine rounding (lat g) (lon g) (lat s) (lon s) = Num d" ..
    then show ?thesis by (simp add: Let_def minD_loop_Num)
  qed
qed

text \<open>A distance that is a number is not negative, and neither is such a latency.\<close>

lemma atan2_nonneg: "0 \<le> y \<Longrightarrow> 0 \<le> atan2 y x"
proof -
  assume y: "0 \<le> y"
  have b: "- (pi / 2) < arctan (y / x)" by (rule arctan_lbound)
  have pos: "0 < pi" by simp
  consider "0 < x" | "x < 0" | "x = 0" by linarith
  then show ?thesis
  proof cases
    case 1
    with y have "0 \<le> y / x" by simp
    then have "0 \<le> arctan (y / x)" by (simp add: zero_le_arctan_iff)
    with 1 show ?thesis by (simp add: atan2_def)
  next
    case 2
    with y have "atan2 y x = arctan (y / x) + pi" by (simp add: atan2_def)
    with b pos show ?thesis by linarith
  next
    case 3
    with y have "atan2 y x = pi / 2 \<or> atan2 y x = 0" by (auto simp: atan2_def)
    with pos show ?thesis by linarith
  qed
qed

lemma haversine_nonneg:
  assumes "haversine rounding lat1 lon1 lat2 lon2 = Num d"
  shows "0 \<le> d"
proof -
  define a where "a = hav_a lat1 lon1 lat2 lon2 + rounding lat1 lon1 lat2 lon2"
  from assms have a: "0 \<le> a" "0 \<le> 1 - a" and d: "d = 2 * 6371 * atan2 (sqrt a) (sqrt (1 - a))"
    by (auto simp: haversine_def Let_def js_sqrt_def a_def split: if_splits)
  from a(1) have "0 \<le> atan2 (sqrt a) (sqrt (1 - a))" by (intro atan2_nonneg) simp
  then show ?thesis by (simp add: d)
qed

lemma finite_values_nonneg:
  "d \<in> set (finite_values (map (\<lambda>s. haversine rounding (lat g) (lon g) (lat s) (lon s)) ss))
     \<Longrightarrow> 0 \<le> d"
proof (induction ss)
  case Nil
  then show ?case by simp
next
  case (Cons s ss)
  from haversine_cases [of rounding "lat g" "lon g" "lat s" "lon s"] show ?case
  proof
    assume "haversine rounding (lat g) (lon g) (lat s) (lon s) = NaN"
    with Cons show ?thesis by simp
  next
    assume "\<exists>e. haversine rounding (lat g) (lon g) (lat s) (lon s) = Num e"
    then obtain e where e: "haversine rounding (lat g) (lon g) (lat s) (lon s) = Num e" ..
    from haversine_nonneg [OF e] Cons e show ?thesis by auto
  qed
qed

lemma latency_nonneg:
  assumes "latency rounding g ss = Num r"
  shows "0 \<le> r"
proof -
  let ?ds = "finite_values (map (\<lambda>s. haversine rounding (lat g) (lon g) (lat s) (lon s)) ss)"
  show ?thesis
  proof (cases "?ds = []")
    case True
    with assms show ?thesis
      by (simp add: latency_def minD_loop_PInf Let_def inf_times_def)
  next
    case False
    then have "Min (set ?ds) \<in> set ?ds" by (intro Min_in) simp_all
    then have "0 \<le> Min (set ?ds)" by (rule finite_values_nonneg)
    with assms False show ?thesis
      by (auto simp: latency_def minD_loop_PInf Let_def)
  qed
qed

text \<open>
  In exact arithmetic every distance is a number, and the latency of a node is
  \<open>(d_min / 300000) * 1000\<close> for the least great-circle distance \<open>d_min\<close> to a satellite.
\<close>

lemma exact_latency_is_minimum_distance:
  assumes "satPositions0 \<noteq> []"
  shows "latency no_rounding g satPositions0
           = Num ((Min ((\<lambda>s. great_circle (lat g) (lon g) (lat s) (lon s)) ` set satPositions0)
                    / 300000) * 1000)"
proof -
  have ds: "finite_values (map (\<lambda>s. haversine no_rounding (lat g) (lon g) (lat s) (lon s)) ss)
          = map (\<lambda>s. great_circle (lat g) (lon g) (lat s) (lon s)) ss" for ss
    by (induction ss) (simp_all add: haversine_no_rounding)
  from assms show ?thesis
    by (simp add: latency_def minD_loop_PInf Let_def ds)
qed

lemma great_circle_antipodal:
  "great_circle (lat south) (lon south) (lat north) (lon north) = 6371 * pi"
  by (simp add: great_circle_def hav_a_antipodal atan2_def)

text \<open>
  Claim C5. The ground node (-62.59375, -44.9375) has one satellite in its list, at the
  antipode (62.59375, 135.0625), 6371 pi kilometres away. The program computes
  \<open>a = 1.0000000000000002\<close> and the distance \<open>NaN\<close>; the comparison \<open>d < minD\<close> fails,
  \<open>minD\<close> stays at \<open>Infinity\<close>, and so does the latency, where exact arithmetic gives
  \<open>6371 pi / 300\<close> milliseconds.
\<close>

theorem antipodal_satellite_gives_infinite_latency:
  "haversine antipodal_rounding (lat south) (lon south) (lat north) (lon north) = NaN
   \<and> latency antipodal_rounding south [north] = PInf
   \<and> latency no_rounding south [north] = Num (6371 * pi / 300)"
proof -
  have r: "antipodal_rounding (lat south) (lon south) (lat north) (lon north) = 1 / 2 ^ 52"
    by (simp add: antipodal_rounding_def)
  have nan: "haversine antipodal_rounding (lat south) (lon south) (lat north) (lon north) = NaN"
    unfolding haversine_def Let_def r by (simp add: hav_a_antipodal js_sqrt_def)
  have "latency antipodal_rounding south [north] = PInf"
    by (simp add: latency_def nan inf_times_def)
  moreover have "latency no_rounding south [north] = Num (6371 * pi / 300)"
    by (simp add: latency_def haversine_no_rounding great_circle_antipodal)
  ultimately show ?thesis using nan by simp
qed

section \<open>No satellite in view\<close>

lemmas stats_defs = aggregate_def d3_mean_def d3_median_def d3_quantileSorted_def js_sort_def
  js_sub_def inf_times_def

lemma latency_Nil: "latency rounding g [] = PInf"
  by (simp add: latency_def inf_times_def)

text \<open>
  Claim C1, as stated, fails. With no satellite position, the latency of a ground node
  is the number \<open>Infinity\<close>, not a separate outcome, and the statistics are computed
  from it: the sample of the node is not left out.
\<close>

theorem no_coverage_counterexample:
  "latencies no_rounding [\<lparr>lat = 0, lon = 0\<rparr>] [] = [PInf]
   \<and> stats (handle no_rounding no_position zero_gstime
        (initial\<lparr>tleData := demo_tles, groundNodes := [\<lparr>lat = 0, lon = 0\<rparr>], running := True\<rparr>)
        (Tick 0))
     = \<lparr>mean = Some PInf, median = Some PInf, p95 = Some PInf\<rparr>"
  by (simp add: latencies_def latency_Nil tick_def satPositions_def satellite_def
      posVel_position_def no_position_def demo_tles_def initial_def stats_defs)

text \<open>
  Claim C1, amended. If the list of satellite positions is empty, the latencies hold one
  value for every ground node, and that value is the number \<open>Infinity\<close>.
\<close>

theorem no_satellite_gives_infinity:
  "latencies rounding groundNodes0 [] = replicate (length groundNodes0) PInf"
  by (simp add: latencies_def latency_Nil map_replicate_const)

theorem no_satellite_gives_infinity_witness:
  "latencies no_rounding (nodes zero_random) [] = replicate 20 PInf"
  using no_satellite_gives_infinity [of no_rounding "nodes zero_random"]
  by (simp add: nodes_def)

text \<open>
  Claim C2. The fetch delivers one element set, the simulation is started, and at the
  first tick the propagator finds no position for the satellite. Every one of the 20
  latencies is \<open>Infinity\<close>, and the tick publishes statistics that are not finite.
\<close>

theorem all_absent_tick_publishes_nonfinite:
  "stats (run no_rounding no_position zero_gstime (mounted zero_random)
      [Fetched ''STARLINK-1\<newline>1 00001\<newline>2 00001'', Start, Tick 0])
   = \<lparr>mean = Some PInf, median = Some NaN, p95 = Some NaN\<rparr>"
  by (simp add: run_def mounted_def initial_def fetched_def trim_def is_ws_def tick_def
      satPositions_def satellite_def posVel_position_def no_position_def latencies_def
      latency_Nil nodes_def stats_defs upt_rec)

section \<open>Statistics of finite latencies\<close>

lemma sort_insert_Num: "sort_insert js_sub (Num v) (map Num ws) = map Num (insort v ws)"
  by (induction ws) (auto simp: js_sub_def)

lemma js_sort_Num: "js_sort js_sub (map Num rs) = map Num (sort rs)"
  unfolding js_sort_def by (induction rs) (simp_all add: sort_insert_Num)

lemma numbers_Num: "filter (\<lambda>v. \<not> isNaN v) (map Num rs) = map Num rs"
  by (induction rs) simp_all

text \<open>The running sum of the mean, with the rounding of every addition.\<close>

lemma foldl_fl_Num:
  "foldl (\<lambda>sum0 value. fl (js_add sum0 value)) (Num a) (map Num rs)
     = Num (foldl (\<lambda>s v. round64 (s + v)) a rs)"
  by (induction rs arbitrary: a) simp_all

lemma d3_mean_Num:
  "rs \<noteq> [] \<Longrightarrow>
     d3_mean (map Num rs)
       = Some (Num (round64 (foldl (\<lambda>s v. round64 (s + v)) 0 rs / real (length rs))))"
  by (simp add: d3_mean_def numbers_Num foldl_fl_Num)

lemma rounded_sum_bounds:
  assumes "\<forall>v \<in> set rs. 0 \<le> v" and "0 \<le> a"
  shows "(a + sum_list rs) * (1 - 1 / 2 ^ 53) ^ length rs \<le> foldl (\<lambda>s v. round64 (s + v)) a rs
         \<and> foldl (\<lambda>s v. round64 (s + v)) a rs \<le> (a + sum_list rs) * (1 + 1 / 2 ^ 53) ^ length rs"
  using assms
proof (induction rs arbitrary: a)
  case Nil
  show ?case by simp
next
  case (Cons v rs)
  define a' where "a' = round64 (a + v)"
  define F where "F = foldl (\<lambda>s v. round64 (s + v)) a' rs"
  define lo where "lo = (1 - 1 / 2 ^ 53 :: real)"
  define hi where "hi = (1 + 1 / 2 ^ 53 :: real)"
  have lo: "0 \<le> lo" "lo \<le> 1" and hi: "1 \<le> hi" by (simp_all add: lo_def hi_def)
  from Cons.prems have v: "0 \<le> v" and rs: "\<forall>v \<in> set rs. 0 \<le> v" and av: "0 \<le> a + v"
    by simp_all
  from rs have sum: "0 \<le> sum_list rs" by (simp add: sum_list_nonneg)
  from round64_bounds [OF av] have b: "(a + v) * lo \<le> a'" "a' \<le> (a + v) * hi"
    by (simp_all add: a'_def lo_def hi_def)
  from b(1) av lo(1) have a': "0 \<le> a'"
    by (meson mult_nonneg_nonneg order_trans)
  from Cons.IH [OF rs a'] have ih:
    "(a' + sum_list rs) * lo ^ length rs \<le> F" "F \<le> (a' + sum_list rs) * hi ^ length rs"
    by (simp_all add: F_def lo_def hi_def)
  have "sum_list rs * lo \<le> sum_list rs" using sum lo(2) by (simp add: mult_left_le)
  with b(1) have "(a + v + sum_list rs) * lo \<le> a' + sum_list rs"
    by (simp add: algebra_simps)
  then have "(a + v + sum_list rs) * lo * lo ^ length rs \<le> (a' + sum_list rs) * lo ^ length rs"
    using lo(1) by (intro mult_right_mono) simp_all
  with ih(1) have lower: "(a + v + sum_list rs) * lo ^ Suc (length rs) \<le> F"
    by (simp add: mult.assoc)
  have "sum_list rs \<le> sum_list rs * hi" using sum hi by (simp add: mult_le_cancel_left1)
  with b(2) have "a' + sum_list rs \<le> (a + v + sum_list rs) * hi"
    by (simp add: algebra_simps)
  then have "(a' + sum_list rs) * hi ^ length rs \<le> (a + v + sum_list rs) * hi * hi ^ length rs"
    using hi by (intro mult_right_mono) simp_all
  with ih(2) have upper: "F \<le> (a + v + sum_list rs) * hi ^ Suc (length rs)"
    by (simp add: mult.assoc)
  from lower upper show ?case
    by (simp add: F_def a'_def lo_def hi_def add.assoc)
qed

lemma sum_list_upper:
  "\<forall>v \<in> set rs. v \<le> M \<Longrightarrow> sum_list rs \<le> real (length rs) * M" for M :: real
  by (induction rs) (auto simp: algebra_simps)

lemma sum_list_lower:
  "\<forall>v \<in> set rs. M \<le> v \<Longrightarrow> real (length rs) * M \<le> sum_list rs" for M :: real
  by (induction rs) (auto simp: algebra_simps)

lemma mean_between:
  assumes "rs \<noteq> []"
  shows "Min (set rs) \<le> sum_list rs / real (length rs)
         \<and> sum_list rs / real (length rs) \<le> Max (set rs)"
proof -
  from assms have n: "0 < real (length rs)" by simp
  have "real (length rs) * Min (set rs) \<le> sum_list rs"
    by (rule sum_list_lower) simp
  moreover have "sum_list rs \<le> real (length rs) * Max (set rs)"
    by (rule sum_list_upper) simp
  ultimately show ?thesis using n
    by (simp add: pos_le_divide_eq pos_divide_le_eq mult.commute)
qed

lemma sorted_first_Min:
  assumes "sorted s" and "s \<noteq> []"
  shows "s ! 0 = Min (set s)"
proof (rule Min_eqI [symmetric])
  show "finite (set s)" by simp
  show "s ! 0 \<in> set s" using assms(2) by simp
  fix v assume "v \<in> set s"
  then obtain j where "j < length s" "v = s ! j" by (auto simp: in_set_conv_nth)
  with assms(1) show "s ! 0 \<le> v" by (simp add: sorted_nth_mono)
qed

lemma sorted_last_Max:
  assumes "sorted s" and "s \<noteq> []"
  shows "s ! (length s - 1) = Max (set s)"
proof (rule Max_eqI [symmetric])
  show "finite (set s)" by simp
  show "s ! (length s - 1) \<in> set s" using assms(2) by simp
  fix v assume "v \<in> set s"
  then obtain j where "j < length s" "v = s ! j" by (auto simp: in_set_conv_nth)
  with assms(1) show "v \<le> s ! (length s - 1)" by (simp add: sorted_nth_mono)
qed

text \<open>The rank below the interpolation point of a quantile \<open>p < 1\<close> has a successor.\<close>

lemma rank_below:
  assumes "0 < m" and "p < 1"
  shows "nat \<lfloor>real m * p\<rfloor> < m"
proof -
  from assms have "real m * p < real m" by simp
  then have "\<lfloor>real m * p\<rfloor> < int m" by (simp add: floor_less_iff)
  with assms(1) show ?thesis by linarith
qed

lemma rank_in_range:
  assumes "2 \<le> n" and "p < 1"
  shows "Suc (nat \<lfloor>real (n - Suc 0) * p\<rfloor>) < n"
proof -
  from assms(1) have "0 < n - Suc 0" by simp
  from rank_below [OF this assms(2)] show ?thesis by linarith
qed

lemma rank_succ_in_range:
  assumes "2 \<le> n" and "p < 1"
  shows "nat \<lfloor>real (n - 1) * p\<rfloor> + 1 < n"
  using rank_in_range [OF assms] by (simp del: of_nat_diff)

lemma quantile_interior:
  assumes "2 \<le> length s" and "0 < p" and "p < 1"
  shows "d3_quantileSorted (map Num s) p =
           Some (Num (s ! nat \<lfloor>real (length s - 1) * p\<rfloor>
             + (s ! (nat \<lfloor>real (length s - 1) * p\<rfloor> + 1) - s ! nat \<lfloor>real (length s - 1) * p\<rfloor>)
               * (real (length s - 1) * p - real (nat \<lfloor>real (length s - 1) * p\<rfloor>))))"
proof -
  from rank_in_range [OF assms(1,3)]
  have k1: "Suc (nat \<lfloor>real (length s - Suc 0) * p\<rfloor>) < length s" .
  then have k0: "nat \<lfloor>real (length s - Suc 0) * p\<rfloor> < length s" by linarith
  from assms have ne: "s \<noteq> []" by auto
  from assms k0 k1 ne show ?thesis
    by (simp add: d3_quantileSorted_def Let_def js_sub_def)
qed

lemma quantile_single:
  assumes "length s = 1"
  shows "d3_quantileSorted (map Num s) p = Some (Num (s ! 0))"
  using assms by (simp add: d3_quantileSorted_def)

lemma interpolation_between:
  fixes s :: "real list"
  assumes "sorted s" and "k + 1 < length s" and "0 \<le> f" and "f \<le> 1"
  shows "s ! k \<le> s ! k + (s ! (k + 1) - s ! k) * f
         \<and> s ! k + (s ! (k + 1) - s ! k) * f \<le> s ! (k + 1)"
proof -
  from assms(1,2) have d: "0 \<le> s ! (k + 1) - s ! k"
    by (simp add: sorted_nth_mono)
  with assms(3) have lo: "0 \<le> (s ! (k + 1) - s ! k) * f" by simp
  from d assms(4) have "(s ! (k + 1) - s ! k) * f \<le> (s ! (k + 1) - s ! k) * 1"
    by (intro mult_left_mono) simp_all
  with lo show ?thesis by simp
qed

lemma fraction_range:
  fixes v :: real
  assumes "0 \<le> v"
  shows "0 \<le> v - real (nat \<lfloor>v\<rfloor>) \<and> v - real (nat \<lfloor>v\<rfloor>) < 1"
proof -
  from assms have "real (nat \<lfloor>v\<rfloor>) = of_int \<lfloor>v\<rfloor>" by simp
  moreover have "of_int \<lfloor>v\<rfloor> \<le> v" "v < of_int \<lfloor>v\<rfloor> + 1" by linarith+
  ultimately show ?thesis by linarith
qed

lemma median_and_p95_sorted:
  assumes "sorted s" and "s \<noteq> []"
  shows "\<exists>md q. d3_quantileSorted (map Num s) (1 / 2) = Some (Num md)
           \<and> d3_quantileSorted (map Num s) (95 / 100) = Some (Num q)
           \<and> s ! 0 \<le> md \<and> md \<le> s ! (length s - 1) \<and> md \<le> q"
proof (cases "length s = 1")
  case True
  then show ?thesis by (simp add: quantile_single)
next
  case False
  moreover from assms(2) have "0 < length s" by simp
  ultimately have n: "2 \<le> length s" by linarith
  define m where "m = real (length s - 1)"
  define k1 where "k1 = nat \<lfloor>m * (1 / 2)\<rfloor>"
  define k2 where "k2 = nat \<lfloor>m * (95 / 100)\<rfloor>"
  define f1 where "f1 = m * (1 / 2) - real k1"
  define f2 where "f2 = m * (95 / 100) - real k2"
  define md where "md = s ! k1 + (s ! (k1 + 1) - s ! k1) * f1"
  define q where "q = s ! k2 + (s ! (k2 + 1) - s ! k2) * f2"
  have m0: "0 \<le> m" by (simp add: m_def)
  then have x: "0 \<le> m * (1 / 2)" "0 \<le> m * (95 / 100)" "m * (1 / 2) \<le> m * (95 / 100)"
    by simp_all
  have eq1: "d3_quantileSorted (map Num s) (1 / 2) = Some (Num md)"
    unfolding md_def f1_def k1_def m_def by (rule quantile_interior [OF n]) simp_all
  have eq2: "d3_quantileSorted (map Num s) (95 / 100) = Some (Num q)"
    unfolding q_def f2_def k2_def m_def by (rule quantile_interior [OF n]) simp_all
  have r1: "k1 + 1 < length s"
    unfolding k1_def m_def by (rule rank_succ_in_range [OF n]) simp
  have r2: "k2 + 1 < length s"
    unfolding k2_def m_def by (rule rank_succ_in_range [OF n]) simp
  have k12: "k1 \<le> k2"
    unfolding k1_def k2_def by (intro nat_mono floor_mono x(3))
  have fr1: "0 \<le> f1" "f1 \<le> 1"
    using fraction_range [OF x(1)] unfolding f1_def k1_def by linarith+
  have fr2: "0 \<le> f2" "f2 \<le> 1"
    using fraction_range [OF x(2)] unfolding f2_def k2_def by linarith+
  have b1: "s ! k1 \<le> md" "md \<le> s ! (k1 + 1)"
    using interpolation_between [OF assms(1) r1 fr1] by (simp_all add: md_def)
  have b2: "s ! k2 \<le> q" "q \<le> s ! (k2 + 1)"
    using interpolation_between [OF assms(1) r2 fr2] by (simp_all add: q_def)
  have lo: "s ! 0 \<le> s ! k1"
    using assms(1) r1 by (intro sorted_nth_mono) simp_all
  have hi: "s ! (k1 + 1) \<le> s ! (length s - 1)"
    using assms(1) r1 by (intro sorted_nth_mono) simp_all
  have "md \<le> q"
  proof (cases "k1 = k2")
    case True
    have "f1 \<le> f2" using x(3) True by (simp add: f1_def f2_def)
    moreover have "0 \<le> s ! (k2 + 1) - s ! k2"
      using assms(1) r2 by (simp add: sorted_nth_mono)
    ultimately have "(s ! (k2 + 1) - s ! k2) * f1 \<le> (s ! (k2 + 1) - s ! k2) * f2"
      by (intro mult_left_mono)
    then show ?thesis by (simp add: md_def q_def True)
  next
    case False
    with k12 have "k1 + 1 \<le> k2" by simp
    with assms(1) r2 have "s ! (k1 + 1) \<le> s ! k2"
      by (intro sorted_nth_mono) simp_all
    with b1(2) b2(1) show ?thesis by linarith
  qed
  with eq1 eq2 b1 lo hi show ?thesis by auto
qed

text \<open>
  The mean in double precision stays within the least and the greatest value up to the
  rounding of the additions and of the division.
\<close>

lemma rounded_mean_between:
  assumes "rs \<noteq> []" and "\<forall>v \<in> set rs. 0 \<le> v"
  shows "Min (set rs) * (1 - 1 / 2 ^ 53) ^ (length rs + 1)
           \<le> round64 (foldl (\<lambda>s v. round64 (s + v)) 0 rs / real (length rs))
         \<and> round64 (foldl (\<lambda>s v. round64 (s + v)) 0 rs / real (length rs))
           \<le> Max (set rs) * (1 + 1 / 2 ^ 53) ^ (length rs + 1)"
proof -
  define n where "n = length rs"
  define S where "S = foldl (\<lambda>s v. round64 (s + v)) 0 rs"
  define A where "A = sum_list rs / real n"
  define lo where "lo = (1 - 1 / 2 ^ 53 :: real)"
  define hi where "hi = (1 + 1 / 2 ^ 53 :: real)"
  have lo: "0 \<le> lo" and hi: "0 \<le> hi" by (simp_all add: lo_def hi_def)
  from assms(1) have n: "0 < real n" by (simp add: n_def)
  from rounded_sum_bounds [OF assms(2), of 0]
  have s: "sum_list rs * lo ^ n \<le> S" "S \<le> sum_list rs * hi ^ n"
    by (simp_all add: S_def n_def lo_def hi_def)
  from assms(2) have "0 \<le> sum_list rs" by (simp add: sum_list_nonneg)
  with s(1) lo have S0: "0 \<le> S"
    by (meson mult_nonneg_nonneg order_trans zero_le_power)
  with n have q0: "0 \<le> S / real n" by simp
  from round64_bounds [OF q0]
  have m: "S / real n * lo \<le> round64 (S / real n)" "round64 (S / real n) \<le> S / real n * hi"
    by (simp_all add: lo_def hi_def)
  from s n have q: "A * lo ^ n \<le> S / real n" "S / real n \<le> A * hi ^ n"
    by (simp_all add: A_def divide_right_mono)
  from mean_between [OF assms(1)] have A: "Min (set rs) \<le> A" "A \<le> Max (set rs)"
    by (simp_all add: A_def n_def)
  have "Min (set rs) * lo ^ (n + 1) \<le> A * lo ^ (n + 1)"
    using A(1) lo by (intro mult_right_mono) simp_all
  also have "\<dots> = A * lo ^ n * lo" by simp
  also have "\<dots> \<le> S / real n * lo"
    using q(1) lo by (intro mult_right_mono)
  also note m(1)
  finally have lower: "Min (set rs) * lo ^ (n + 1) \<le> round64 (S / real n)" .
  note m(2)
  also have "S / real n * hi \<le> A * hi ^ n * hi"
    using q(2) hi by (intro mult_right_mono)
  also have "\<dots> = A * hi ^ (n + 1)" by simp
  also have "\<dots> \<le> Max (set rs) * hi ^ (n + 1)"
    using A(2) hi by (intro mult_right_mono) simp_all
  finally have upper: "round64 (S / real n) \<le> Max (set rs) * hi ^ (n + 1)" .
  from lower upper show ?thesis
    by (simp add: S_def n_def lo_def hi_def)
qed

text \<open>
  Twenty additions of the double 40.77147310300487, each rounded to a double, and the
  division of the sum by 20.
\<close>

lemma replicate_20: "replicate 20 x = [x, x, x, x, x, x, x, x, x, x, x, x, x, x, x, x, x, x, x, x]"
  by (simp add: numeral_eq_Suc)

lemma rounded_sum_of_samples:
  "foldl (\<lambda>s v. round64 (s + v)) 0 (replicate 20 sample) = 7172593401329645 / 2 ^ 43"
proof -
  have s1: "round64 (0 + sample) = 5738074721063717 / 2 ^ 47"
    by (simp add: sample_def round64_at [where e = 5] round_even_def powr_neg_numeral)
  have s2: "round64 (5738074721063717 / 2 ^ 47 + sample) = 5738074721063717 / 2 ^ 46"
    by (simp add: sample_def round64_at [where e = 6] round_even_def powr_neg_numeral)
  have s3: "round64 (5738074721063717 / 2 ^ 46 + sample) = 1075889010199447 / 2 ^ 43"
    by (simp add: sample_def round64_at [where e = 6] round_even_def powr_neg_numeral)
  have s4: "round64 (1075889010199447 / 2 ^ 43 + sample) = 5738074721063717 / 2 ^ 45"
    by (simp add: sample_def round64_at [where e = 7] round_even_def powr_neg_numeral)
  have s5: "round64 (5738074721063717 / 2 ^ 45 + sample) = 3586296700664823 / 2 ^ 44"
    by (simp add: sample_def round64_at [where e = 7] round_even_def powr_neg_numeral)
  have s6: "round64 (3586296700664823 / 2 ^ 44 + sample) = 8607112081595575 / 2 ^ 45"
    by (simp add: sample_def round64_at [where e = 7] round_even_def powr_neg_numeral)
  have s7: "round64 (8607112081595575 / 2 ^ 45 + sample) = 78450240327043 / 2 ^ 38"
    by (simp add: sample_def round64_at [where e = 8] round_even_def powr_neg_numeral)
  have s8: "round64 (78450240327043 / 2 ^ 38 + sample) = 5738074721063717 / 2 ^ 44"
    by (simp add: sample_def round64_at [where e = 8] round_even_def powr_neg_numeral)
  have s9: "round64 (5738074721063717 / 2 ^ 44 + sample) = 3227667030598341 / 2 ^ 43"
    by (simp add: sample_def round64_at [where e = 8] round_even_def powr_neg_numeral)
  have s10: "round64 (3227667030598341 / 2 ^ 43 + sample) = 7172593401329647 / 2 ^ 44"
    by (simp add: sample_def round64_at [where e = 8] round_even_def powr_neg_numeral)
  have s11: "round64 (7172593401329647 / 2 ^ 44 + sample) = 1972463185365653 / 2 ^ 42"
    by (simp add: sample_def round64_at [where e = 8] round_even_def powr_neg_numeral)
  have s12: "round64 (1972463185365653 / 2 ^ 42 + sample) = 8607112081595577 / 2 ^ 44"
    by (simp add: sample_def round64_at [where e = 8] round_even_def powr_neg_numeral)
  have s13: "round64 (8607112081595577 / 2 ^ 44 + sample) = 4662185710864271 / 2 ^ 43"
    by (simp add: sample_def round64_at [where e = 9] round_even_def powr_neg_numeral)
  have s14: "round64 (4662185710864271 / 2 ^ 43 + sample) = 5020815380930753 / 2 ^ 43"
    by (simp add: sample_def round64_at [where e = 9] round_even_def powr_neg_numeral)
  have s15: "round64 (5020815380930753 / 2 ^ 43 + sample) = 5379445050997235 / 2 ^ 43"
    by (simp add: sample_def round64_at [where e = 9] round_even_def powr_neg_numeral)
  have s16: "round64 (5379445050997235 / 2 ^ 43 + sample) = 5738074721063717 / 2 ^ 43"
    by (simp add: sample_def round64_at [where e = 9] round_even_def powr_neg_numeral)
  have s17: "round64 (5738074721063717 / 2 ^ 43 + sample) = 6096704391130199 / 2 ^ 43"
    by (simp add: sample_def round64_at [where e = 9] round_even_def powr_neg_numeral)
  have s18: "round64 (6096704391130199 / 2 ^ 43 + sample) = 6455334061196681 / 2 ^ 43"
    by (simp add: sample_def round64_at [where e = 9] round_even_def powr_neg_numeral)
  have s19: "round64 (6455334061196681 / 2 ^ 43 + sample) = 6813963731263163 / 2 ^ 43"
    by (simp add: sample_def round64_at [where e = 9] round_even_def powr_neg_numeral)
  have s20: "round64 (6813963731263163 / 2 ^ 43 + sample) = 7172593401329645 / 2 ^ 43"
    by (simp add: sample_def round64_at [where e = 9] round_even_def powr_neg_numeral)
  show ?thesis
    unfolding replicate_20 by (simp only: foldl.simps s1 s2 s3 s4 s5 s6 s7 s8 s9 s10 s11 s12 s13 s14 s15 s16 s17 s18 s19 s20)
qed

lemma rounded_mean_of_samples:
  "round64 ((7172593401329645 / 2 ^ 43) / 20) = 1434518680265929 / 2 ^ 45"
  by (simp add: round64_at [where e = 5] round_even_def powr_neg_numeral)

text \<open>
  Claim C6, as stated, fails on two sides. The list of twenty latencies \<open>Infinity\<close>,
  which the tick builds when no satellite has a position, has the median \<open>NaN\<close>. And
  the mean of twenty equal latencies of 40.77147310300487 milliseconds is
  40.771473103004865, below all of them: the running sum is rounded at every step.
\<close>

theorem statistics_counterexample:
  "median (aggregate (replicate 20 PInf)) = Some NaN
   \<and> mean (aggregate (replicate 20 (Num sample))) = Some (Num (1434518680265929 / 2 ^ 45))
   \<and> (1434518680265929 / 2 ^ 45 :: real) < sample"
proof -
  have infinite: "median (aggregate (replicate 20 PInf)) = Some NaN"
    unfolding replicate_20
    by (simp add: aggregate_def d3_median_def d3_quantileSorted_def js_sort_def js_sub_def)
  have "d3_mean (map Num (replicate 20 sample))
          = Some (Num (round64 (foldl (\<lambda>s v. round64 (s + v)) 0 (replicate 20 sample)
                                  / real (length (replicate 20 sample)))))"
    by (rule d3_mean_Num) simp
  also have "\<dots> = Some (Num (round64 ((7172593401329645 / 2 ^ 43) / 20)))"
    by (simp only: rounded_sum_of_samples length_replicate of_nat_numeral)
  also have "\<dots> = Some (Num (1434518680265929 / 2 ^ 45))"
    by (simp only: rounded_mean_of_samples)
  finally have rounded: "mean (aggregate (replicate 20 (Num sample))) = Some (Num (1434518680265929 / 2 ^ 45))"
    by (simp add: aggregate_def Let_def)
  have "(1434518680265929 / 2 ^ 45 :: real) < sample"
    by (simp add: sample_def)
  with infinite rounded show ?thesis by simp
qed

text \<open>
  Claim C6, amended. For every non-empty list of latency values, each a finite number
  and none negative, the statistics are numbers with \<open>min \<le> median \<le> max\<close> and
  \<open>median \<le> p95\<close>, whether or not two of the values differ; and the mean lies between
  \<open>min\<close> and \<open>max\<close> up to the rounding of its \<open>n\<close> additions and one division:
  \<open>min * (1 - 2^-53)^(n + 1) \<le> mean \<le> max * (1 + 2^-53)^(n + 1)\<close>.
\<close>

theorem statistics_are_ordered:
  assumes "rs \<noteq> []" and "\<forall>v \<in> set rs. 0 \<le> v"
  shows "\<exists>m md q.
           aggregate (map Num rs)
             = \<lparr>mean = Some (Num m), median = Some (Num md), p95 = Some (Num q)\<rparr>
           \<and> Min (set rs) \<le> md \<and> md \<le> Max (set rs)
           \<and> md \<le> q
           \<and> Min (set rs) * (1 - 1 / 2 ^ 53) ^ (length rs + 1) \<le> m
           \<and> m \<le> Max (set rs) * (1 + 1 / 2 ^ 53) ^ (length rs + 1)"
proof -
  let ?s = "sort rs"
  let ?m = "round64 (foldl (\<lambda>s v. round64 (s + v)) 0 rs / real (length rs))"
  have "length ?s = length rs" by simp
  with assms(1) have "?s \<noteq> []" by (metis length_0_conv)
  then have s: "sorted ?s" "?s \<noteq> []" by simp_all
  from median_and_p95_sorted [OF s] obtain md q where
    eq: "d3_quantileSorted (map Num ?s) (1 / 2) = Some (Num md)"
        "d3_quantileSorted (map Num ?s) (95 / 100) = Some (Num q)"
    and b: "?s ! 0 \<le> md" "md \<le> ?s ! (length ?s - 1)" "md \<le> q"
    by blast
  have mn: "?s ! 0 = Min (set rs)" using sorted_first_Min [OF s] by simp
  have mx: "?s ! (length ?s - 1) = Max (set rs)" using sorted_last_Max [OF s] by simp
  have agg: "aggregate (map Num rs)
      = \<lparr>mean = Some (Num ?m), median = Some (Num md), p95 = Some (Num q)\<rparr>"
    unfolding aggregate_def d3_median_def Let_def numbers_Num js_sort_Num eq
      d3_mean_Num [OF assms(1)]
    by (rule refl)
  from rounded_mean_between [OF assms] b mn mx agg show ?thesis by auto
qed

text \<open>The latencies 1, 3, 2, 10: mean 4, median 2.5, 95th percentile 8.95.\<close>

theorem statistics_are_ordered_witness:
  "aggregate [Num 1, Num 3, Num 2, Num 10]
     = \<lparr>mean = Some (Num 4), median = Some (Num (5 / 2)), p95 = Some (Num (179 / 20))\<rparr>"
  using statistics_are_ordered [of "[1, 3, 2, 10]"]
  by (simp add: aggregate_def d3_mean_def d3_median_def d3_quantileSorted_def js_sort_def
      js_sub_def)

text \<open>
  On finite values the median of the model is the rank-based median: the middle element
  of the sorted values on an odd count, the average of the two middle elements on an
  even count.
\<close>

lemma median_rank_based:
  assumes "s \<noteq> []"
  shows "d3_quantileSorted (map Num s) (1 / 2) =
           Some (Num (if even (length s)
                      then (s ! (length s div 2 - 1) + s ! (length s div 2)) / 2
                      else s ! (length s div 2)))"
proof (cases "length s = 1")
  case True
  then show ?thesis by (simp add: d3_quantileSorted_def)
next
  case False
  moreover from assms have "0 < length s" by simp
  ultimately have n: "2 \<le> length s" by linarith
  note q = quantile_interior [OF n, of "1 / 2"]
  show ?thesis
  proof (cases "even (length s)")
    case True
    then obtain j where j: "length s = 2 * j" by (elim evenE)
    with n have j1: "1 \<le> j" by simp
    then have v: "real (length s - 1) * (1 / 2) = real j - 1 / 2"
      by (simp add: j of_nat_diff)
    have "\<lfloor>real j - 1 / 2\<rfloor> = int j - 1"
      by (rule floor_unique) simp_all
    with j1 have k: "nat \<lfloor>real (length s - 1) * (1 / 2)\<rfloor> = j - 1"
      unfolding v by simp
    have f: "real j - 1 / 2 - real (j - 1) = 1 / 2" using j1 by (simp add: of_nat_diff)
    have kk: "j - 1 + 1 = j" using j1 by simp
    have "d3_quantileSorted (map Num s) (1 / 2)
            = Some (Num (s ! (j - 1) + (s ! j - s ! (j - 1)) * (1 / 2)))"
      using q unfolding k unfolding v f kk by simp
    with True j show ?thesis by (simp add: field_simps)
  next
    case False
    then obtain j where j: "length s = 2 * j + 1" by (elim oddE)
    then have v: "real (length s - 1) * (1 / 2) = real j" by simp
    have k: "nat \<lfloor>real (length s - 1) * (1 / 2)\<rfloor> = j" unfolding v by simp
    have "d3_quantileSorted (map Num s) (1 / 2)
            = Some (Num (s ! j + (s ! (j + 1) - s ! j) * (real j - real j)))"
      using q unfolding k unfolding v by simp
    with False j show ?thesis by simp
  qed
qed

end
